theory Spec2Isabelle
  imports Complex_Main "HOL-Library.Sublist"
begin

section \<open>Text, characters and the part of the \<open>re\<close> module the scanner uses\<close>

text \<open>
  A Python \<open>str\<close> is a sequence of Unicode code points. The labels, messages and paths
  of \<open>main.py\<close> are ASCII and are kept as HOL strings; the text of a document chunk is a
  list of code points.
\<close>

type_synonym str = "nat list"

definition str_of :: "string \<Rightarrow> str" where
  "str_of s = map of_char s"

text \<open>
  What the interpreter's Unicode database says about the code points from 128 on:
  \<open>uc_alnum\<close> is \<open>str.isalnum\<close>, \<open>uc_decimal\<close> the category Nd, \<open>uc_space\<close> is
  \<open>str.isspace\<close>, and \<open>uc_upper\<close> and \<open>uc_lower\<close> are the full case mappings of
  \<open>str.upper\<close> and \<open>str.lower\<close> (a code point may map to several). The ASCII part
  is written out below; the rest is an input of the model.
\<close>

record unicode_db =
  uc_alnum :: "nat \<Rightarrow> bool"
  uc_decimal :: "nat \<Rightarrow> bool"
  uc_space :: "nat \<Rightarrow> bool"
  uc_upper :: "nat \<Rightarrow> nat list"
  uc_lower :: "nat \<Rightarrow> nat list"

definition ascii_alnum :: "nat \<Rightarrow> bool" where
  "ascii_alnum c = ((48 \<le> c \<and> c \<le> 57) \<or> (65 \<le> c \<and> c \<le> 90) \<or> (97 \<le> c \<and> c \<le> 122))"

text \<open>\<open>\w\<close>: alphanumeric or the underscore.\<close>

definition is_word :: "unicode_db \<Rightarrow> nat \<Rightarrow> bool" where
  "is_word U c = (if c < 128 then ascii_alnum c \<or> c = 95 else uc_alnum U c)"

text \<open>\<open>\d\<close>: a decimal digit.\<close>

definition is_digit :: "unicode_db \<Rightarrow> nat \<Rightarrow> bool" where
  "is_digit U c = (if c < 128 then 48 \<le> c \<and> c \<le> 57 else uc_decimal U c)"

text \<open>\<open>\s\<close>: whitespace; in ASCII the code points 9 to 13, 28 to 31 and 32.\<close>

definition is_space :: "unicode_db \<Rightarrow> nat \<Rightarrow> bool" where
  "is_space U c = (if c < 128 then (9 \<le> c \<and> c \<le> 13) \<or> (28 \<le> c \<and> c \<le> 32) else uc_space U c)"

text \<open>
  Under \<open>re.IGNORECASE\<close> a code point matches an ASCII pattern character when both have
  the same image here: the 26 capitals go to their small letters, and so do the four
  code points the library documents as matching \<open>[a-z]\<close>, U+0130 and U+0131 (to i),
  U+017F (to s) and U+212A (to k).
\<close>

definition fold_case :: "nat \<Rightarrow> nat" where
  "fold_case c =
     (if 65 \<le> c \<and> c \<le> 90 then c + 32
      else if c = 304 \<or> c = 305 then 105
      else if c = 383 then 115
      else if c = 8490 then 107
      else c)"

text \<open>The members of a bracketed class: a character, a range, \<open>\d\<close> or \<open>\s\<close>.\<close>

datatype citem = Ch char | Rng char char | Digit | Space

datatype regex =
    Empty
  | Class "citem list"
  | Boundary
  | Cat regex regex
  | Or regex regex
  | Repeat regex nat "nat option"
  | Group regex

text \<open>
  \<open>Repeat r m None\<close> is \<open>r{m,}\<close> and \<open>Repeat r m (Some n)\<close> is \<open>r{m,n}\<close>, where \<open>re\<close>
  accepts a pattern only when \<open>m \<le> n\<close>; \<open>Boundary\<close> is \<open>\b\<close>; \<open>Group\<close> is a capturing or
  non-capturing group, which does not change whether the pattern matches.
\<close>

fun item_match :: "unicode_db \<Rightarrow> bool \<Rightarrow> citem \<Rightarrow> nat \<Rightarrow> bool" where
  "item_match U ic (Ch x) c =
     (if ic then fold_case c = fold_case (of_char x) else c = of_char x)"
| "item_match U ic (Rng a b) c =
     (if ic then fold_case c \<in> fold_case ` {of_char a .. of_char b}
      else of_char a \<le> c \<and> c \<le> of_char b)"
| "item_match U ic Digit c = is_digit U c"
| "item_match U ic Space c = is_space U c"

definition class_match :: "unicode_db \<Rightarrow> bool \<Rightarrow> citem list \<Rightarrow> nat \<Rightarrow> bool" where
  "class_match U ic items c = list_ex (\<lambda>it. item_match U ic it c) items"

text \<open>
  A position in the text: the code point before it (none at the start) and the text
  from it on.
\<close>

type_synonym pos = "nat option \<times> nat list"

fun step_class :: "(nat \<Rightarrow> bool) \<Rightarrow> pos \<Rightarrow> pos list" where
  "step_class P (p, []) = []"
| "step_class P (p, c # cs) = (if P c then [(Some c, cs)] else [])"

definition at_boundary :: "unicode_db \<Rightarrow> pos \<Rightarrow> bool" where
  "at_boundary U st =
     ((case fst st of None \<Rightarrow> False | Some a \<Rightarrow> is_word U a) \<noteq>
      (case snd st of [] \<Rightarrow> False | c # cs \<Rightarrow> is_word U c))"

text \<open>Exactly \<open>n\<close> repetitions, and at most \<open>n\<close> (the longer ones first).\<close>

fun rep_exact :: "(pos \<Rightarrow> pos list) \<Rightarrow> nat \<Rightarrow> pos \<Rightarrow> pos list" where
  "rep_exact f 0 st = [st]"
| "rep_exact f (Suc n) st = concat (map (rep_exact f n) (f st))"

fun rep_upto :: "(pos \<Rightarrow> pos list) \<Rightarrow> nat \<Rightarrow> pos \<Rightarrow> pos list" where
  "rep_upto f 0 st = [st]"
| "rep_upto f (Suc n) st = concat (map (rep_upto f n) (f st)) @ [st]"

text \<open>
  \<open>ends U ic r st\<close>: the positions where a match of \<open>r\<close> that starts at \<open>st\<close> can end,
  with \<open>ic\<close> the flag \<open>re.IGNORECASE\<close>. An unbounded repetition is tried as many times as
  there are code points left: a repetition that consumes nothing ends where it
  started, so more rounds reach no new position.
\<close>

primrec ends :: "unicode_db \<Rightarrow> bool \<Rightarrow> regex \<Rightarrow> pos \<Rightarrow> pos list" where
  "ends U ic Empty = (\<lambda>st. [st])"
| "ends U ic (Class items) = step_class (class_match U ic items)"
| "ends U ic Boundary = (\<lambda>st. if at_boundary U st then [st] else [])"
| "ends U ic (Cat r1 r2) = (\<lambda>st. concat (map (ends U ic r2) (ends U ic r1 st)))"
| "ends U ic (Or r1 r2) = (\<lambda>st. ends U ic r1 st @ ends U ic r2 st)"
| "ends U ic (Repeat r m n) = (\<lambda>st.
     concat (map (\<lambda>s. rep_upto (ends U ic r)
                        (case n of None \<Rightarrow> length (snd s) | Some k \<Rightarrow> k - m) s)
                 (rep_exact (ends U ic r) m st)))"
| "ends U ic (Group r) = ends U ic r"

text \<open>\<open>re.search\<close>: a match starts at some position of the text, its end included.\<close>

fun search :: "unicode_db \<Rightarrow> bool \<Rightarrow> regex \<Rightarrow> nat option \<Rightarrow> str \<Rightarrow> bool" where
  "search U ic r p [] = (ends U ic r (p, []) \<noteq> [])"
| "search U ic r p (c # cs) = (ends U ic r (p, c # cs) \<noteq> [] \<or> search U ic r (Some c) cs)"

text \<open>
  \<open>re.findall(pattern, text, flags)\<close> is used only through its truth value, \<open>if matches:\<close>,
  and the list it returns is non-empty exactly when the pattern matches somewhere.
\<close>

definition findall_nonempty :: "unicode_db \<Rightarrow> bool \<Rightarrow> regex \<Rightarrow> str \<Rightarrow> bool" where
  "findall_nonempty U ic r s = search U ic r None s"

section \<open>The pattern registry of \<open>scan_for_secrets\<close>\<close>

definition lit :: "string \<Rightarrow> regex" where
  "lit s = foldr (\<lambda>x r. Cat (Class [Ch x]) r) s Empty"

definition cat :: "regex list \<Rightarrow> regex" where
  "cat rs = foldr Cat rs Empty"

definition digits :: "nat \<Rightarrow> nat option \<Rightarrow> regex" where
  "digits m n = Repeat (Class [Digit]) m n"

definition opt :: "regex \<Rightarrow> regex" where
  "opt r = Repeat r 0 (Some 1)"

text \<open>\<^verbatim>\<open>\b[A-Za-z0-9._%+-]+@[A-Za-z0-9.-]+\.[A-Z|a-z]{2,}\b\<close>\<close>

definition email_address :: regex where
  "email_address = cat
     [Boundary,
      Repeat (Class [Rng CHR ''A'' CHR ''Z'', Rng CHR ''a'' CHR ''z'', Rng CHR ''0'' CHR ''9'',
                     Ch CHR ''.'', Ch CHR ''_'', Ch CHR ''%'', Ch CHR ''+'', Ch CHR ''-'']) 1 None,
      lit ''@'',
      Repeat (Class [Rng CHR ''A'' CHR ''Z'', Rng CHR ''a'' CHR ''z'', Rng CHR ''0'' CHR ''9'',
                     Ch CHR ''.'', Ch CHR ''-'']) 1 None,
      lit ''.'',
      Repeat (Class [Rng CHR ''A'' CHR ''Z'', Ch CHR ''|'', Rng CHR ''a'' CHR ''z'']) 2 None,
      Boundary]"

text \<open>\<^verbatim>\<open>\b\d{3}-\d{2}-\d{4}\b\<close>\<close>

definition ssn :: regex where
  "ssn = cat [Boundary, digits 3 (Some 3), lit ''-'', digits 2 (Some 2), lit ''-'',
              digits 4 (Some 4), Boundary]"

text \<open>\<^verbatim>\<open>\b\d{4}[\s-]?\d{4}[\s-]?\d{4}[\s-]?\d{4}\b\<close>\<close>

definition credit_card :: regex where
  "credit_card = cat
     [Boundary, digits 4 (Some 4), opt (Class [Space, Ch CHR ''-'']),
      digits 4 (Some 4), opt (Class [Space, Ch CHR ''-'']),
      digits 4 (Some 4), opt (Class [Space, Ch CHR ''-'']),
      digits 4 (Some 4), Boundary]"

text \<open>\<^verbatim>\<open>(?:api[_-]?key|apikey|api[_-]?secret)[\s:="\']([a-zA-Z0-9_\-]{20,})\<close>\<close>

definition api_key_pattern :: regex where
  "api_key_pattern = cat
     [Group (Or (cat [lit ''api'', opt (Class [Ch CHR ''_'', Ch CHR ''-'']), lit ''key''])
            (Or (lit ''apikey'')
                (cat [lit ''api'', opt (Class [Ch CHR ''_'', Ch CHR ''-'']), lit ''secret'']))),
      Class [Space, Ch CHR '':'', Ch CHR ''='', Ch (CHR 0x22), Ch (CHR 0x27)],
      Group (Repeat (Class [Rng CHR ''a'' CHR ''z'', Rng CHR ''A'' CHR ''Z'',
                            Rng CHR ''0'' CHR ''9'', Ch CHR ''_'', Ch CHR ''-'']) 20 None)]"

text \<open>\<^verbatim>\<open>\b(AKIA[0-9A-Z]{16})\b\<close>\<close>

definition aws_access_key :: regex where
  "aws_access_key = cat
     [Boundary,
      Group (cat [lit ''AKIA'',
                  Repeat (Class [Rng CHR ''0'' CHR ''9'', Rng CHR ''A'' CHR ''Z'']) 16 (Some 16)]),
      Boundary]"

text \<open>\<^verbatim>\<open>\b\d{3}[-.\s]?\d{3}[-.\s]?\d{4}\b\<close>\<close>

definition phone_number :: regex where
  "phone_number = cat
     [Boundary, digits 3 (Some 3), opt (Class [Ch CHR ''-'', Ch CHR ''.'', Space]),
      digits 3 (Some 3), opt (Class [Ch CHR ''-'', Ch CHR ''.'', Space]),
      digits 4 (Some 4), Boundary]"

text \<open>\<^verbatim>\<open>\b(?:\d{1,3}\.){3}\d{1,3}\b\<close>\<close>

definition ip_address :: regex where
  "ip_address = cat
     [Boundary, Repeat (Group (cat [digits 1 (Some 3), lit ''.''])) 3 (Some 3),
      digits 1 (Some 3), Boundary]"

text \<open>The dictionary \<open>patterns\<close>, in the order it is written (the order \<open>items()\<close> yields).\<close>

definition patterns :: "(string \<times> regex) list" where
  "patterns =
     [(''Email Address'', email_address),
      (''SSN'', ssn),
      (''Credit Card'', credit_card),
      (''API Key Pattern'', api_key_pattern),
      (''AWS Access Key'', aws_access_key),
      (''Phone Number'', phone_number),
      (''IP Address'', ip_address)]"

section \<open>\<open>scan_for_secrets\<close>\<close>

record document =
  page_content :: str

text \<open>
  The scanner is run together with a log of the calls of \<open>re.findall\<close> it makes, each
  as the label of the pattern and the text searched, so that which patterns were
  evaluated can be stated. The body of the inner loop, for one entry of
  \<open>patterns.items()\<close>: \<open>re.findall(pattern, doc.page_content, re.IGNORECASE)\<close> is
  evaluated, and the finding is appended when the list it returns is not empty.
\<close>

definition scan_step ::
  "unicode_db \<Rightarrow> document \<Rightarrow> string list \<times> (string \<times> str) list \<Rightarrow> string \<times> regex
     \<Rightarrow> string list \<times> (string \<times> str) list" where
  "scan_step U doc acc entry =
     (case entry of (label, pattern) \<Rightarrow>
      case acc of (findings, evaluated) \<Rightarrow>
        (if findall_nonempty U True pattern (page_content doc)
         then findings @ [label @ '' pattern detected in source chunk'']
         else findings,
         evaluated @ [(label, page_content doc)]))"

text \<open>
  When detection is disabled the method returns at its first statement, before the
  dictionary of patterns is built and before any document is looked at. Otherwise the
  two loops run over the documents and, for each, over the patterns, and
  \<open>list(set(findings))\<close> keeps one copy of every finding, in an order Python does not
  fix; \<open>remdups\<close> keeps one copy of each too, and nothing below depends on the order.
\<close>

definition scan_for_secrets_traced ::
  "unicode_db \<Rightarrow> bool \<Rightarrow> document list \<Rightarrow> string list \<times> (string \<times> str) list" where
  "scan_for_secrets_traced U enable_pii_detection documents =
     (if \<not> enable_pii_detection then ([], [])
      else case foldl (\<lambda>acc doc. foldl (scan_step U doc) acc patterns) ([], []) documents of
             (findings, evaluated) \<Rightarrow> (remdups findings, evaluated))"

text \<open>What the method returns.\<close>

definition scan_for_secrets :: "unicode_db \<Rightarrow> bool \<Rightarrow> document list \<Rightarrow> string list" where
  "scan_for_secrets U enable_pii_detection documents =
     fst (scan_for_secrets_traced U enable_pii_detection documents)"

text \<open>The findings one chunk adds.\<close>

definition scan_document :: "unicode_db \<Rightarrow> document \<Rightarrow> string list" where
  "scan_document U doc =
     map (\<lambda>(label, pattern). label @ '' pattern detected in source chunk'')
         (filter (\<lambda>(label, pattern). findall_nonempty U True pattern (page_content doc)) patterns)"

text \<open>
  Which patterns matched in which chunks: one row for each chunk, one entry for each
  pattern of the registry.
\<close>

definition match_table :: "unicode_db \<Rightarrow> document list \<Rightarrow> bool list list" where
  "match_table U documents =
     map (\<lambda>d. map (\<lambda>(label, pattern). findall_nonempty U True pattern (page_content d)) patterns)
         documents"

definition findings_of_row :: "bool list \<Rightarrow> string list" where
  "findings_of_row row =
     map (\<lambda>(label, pattern). label @ '' pattern detected in source chunk'')
         (map fst (filter snd (zip patterns row)))"

section \<open>Letter case\<close>

definition ascii_upper :: "nat \<Rightarrow> nat" where
  "ascii_upper c = (if 97 \<le> c \<and> c \<le> 122 then c - 32 else c)"

definition ascii_lower :: "nat \<Rightarrow> nat" where
  "ascii_lower c = (if 65 \<le> c \<and> c \<le> 90 then c + 32 else c)"

text \<open>\<open>str.upper()\<close> and \<open>str.lower()\<close>.\<close>

definition str_upper :: "unicode_db \<Rightarrow> str \<Rightarrow> str" where
  "str_upper U s = concat (map (\<lambda>c. if c < 128 then [ascii_upper c] else uc_upper U c) s)"

definition str_lower :: "unicode_db \<Rightarrow> str \<Rightarrow> str" where
  "str_lower U s = concat (map (\<lambda>c. if c < 128 then [ascii_lower c] else uc_lower U c) s)"

definition upper_document :: "unicode_db \<Rightarrow> document \<Rightarrow> document" where
  "upper_document U d = d\<lparr>page_content := str_upper U (page_content d)\<rparr>"

definition lower_document :: "unicode_db \<Rightarrow> document \<Rightarrow> document" where
  "lower_document U d = d\<lparr>page_content := str_lower U (page_content d)\<rparr>"

text \<open>
  The Unicode database on the code points 128 to 255 (Latin-1). From 256 on it answers
  as for a caseless symbol, which is not Unicode's answer for every code point; it is
  used below on text under 256 only.
\<close>

definition latin1_db :: unicode_db where
  "latin1_db =
     \<lparr>uc_alnum = (\<lambda>c. c \<in> {170, 178, 179, 181, 185, 186, 188, 189, 190}
                       \<or> (192 \<le> c \<and> c \<le> 214) \<or> (216 \<le> c \<and> c \<le> 246) \<or> (248 \<le> c \<and> c \<le> 255)),
      uc_decimal = (\<lambda>c. False),
      uc_space = (\<lambda>c. c = 133 \<or> c = 160),
      uc_upper = (\<lambda>c. if c = 181 then [924]
                        else if c = 223 then [83, 83]
                        else if (224 \<le> c \<and> c \<le> 246) \<or> (248 \<le> c \<and> c \<le> 254) then [c - 32]
                        else if c = 255 then [376]
                        else [c]),
      uc_lower = (\<lambda>c. if (192 \<le> c \<and> c \<le> 214) \<or> (216 \<le> c \<and> c \<le> 222) then [c + 32] else [c])\<rparr>"

section \<open>The researcher object and its methods\<close>

text \<open>
  The methods are modelled by what they return or raise and by the state they leave;
  what they print to the console is left out.
\<close>

text \<open>
  The exceptions \<open>main.py\<close> raises itself are \<open>ValueError\<close> and \<open>FileNotFoundError\<close>, each
  with its message. An exception raised inside a library call is kept with the name of
  its class.
\<close>

datatype error = ValueError string | FileNotFoundError string | LibraryError string


text \<open>
  What the constructor reads of the process: \<open>os.environ\<close>, and \<open>Path(p).exists()\<close>, which
  answers whether the path exists or raises (\<open>OSError\<close> for a name that is too long,
  \<open>PermissionError\<close> under a directory that cannot be searched).
\<close>

record world =
  environ :: "string \<rightharpoonup> string"
  path_exists :: "string \<Rightarrow> error + bool"

text \<open>
  The chain \<open>RetrievalQA.from_chain_type\<close> builds, as the arguments \<open>setup_qa_chain\<close>
  passes: the model of \<open>ChatOpenAI\<close>, the chain type, the vector store behind the
  retriever and its \<open>k\<close>, and \<open>return_source_documents\<close>.
\<close>

record 'ix retrieval_qa =
  llm_model_name :: string
  llm_temperature :: real
  chain_type :: string
  retriever_store :: 'ix
  retriever_k :: nat
  return_source_documents :: bool

record 'ix researcher =
  pdf_path :: string
  chunk_size :: int
  chunk_overlap :: int
  model_name :: string
  temperature :: real
  vectorstore_path :: string
  enable_pii_detection :: bool
  vectorstore :: "'ix option"
  qa_chain :: "'ix retrieval_qa option"

record response =
  result :: string
  source_documents :: "document list"
  security_alerts :: "string list option"

text \<open>
  The library calls the methods make, each of which returns or raises:
  \<open>PyPDFLoader(path).load()\<close>,
  \<open>RecursiveCharacterTextSplitter(chunk_size, chunk_overlap).split_documents(documents)\<close>,
  \<open>FAISS.load_local(path, OpenAIEmbeddings(), ...)\<close>,
  \<open>FAISS.from_documents(chunks, OpenAIEmbeddings())\<close>, \<open>save_local(path)\<close> and
  \<open>qa_chain.invoke({"query": question})\<close>. Their code is not part of the repository;
  they are inputs of the model.
\<close>

record 'ix library =
  loader_load :: "string \<Rightarrow> error + document list"
  split_documents :: "int \<Rightarrow> int \<Rightarrow> document list \<Rightarrow> error + document list"
  faiss_load_local :: "string \<Rightarrow> error + 'ix"
  faiss_from_documents :: "document list \<Rightarrow> error + 'ix"
  faiss_save_local :: "'ix \<Rightarrow> string \<Rightarrow> error + unit"
  chain_invoke :: "'ix retrieval_qa \<Rightarrow> string \<Rightarrow> error + response"

text \<open>The library calls made so far, in order.\<close>

datatype call =
    Load string
  | Split int int
  | LoadLocal string
  | FromDocuments "document list"
  | SaveLocal string
  | Invoke string

text \<open>
  The state a method runs in and leaves behind, also when it raises: what
  \<open>Path(p).exists()\<close> answers or raises, the calls made, and the object.
\<close>

record 'ix system =
  fs_exists :: "string \<Rightarrow> error + bool"
  calls :: "call list"
  self :: "'ix researcher"

text \<open>
  \<open>not os.getenv("OPENAI_API_KEY")\<close> holds for an unset variable and for an empty one.
  An exception of \<open>Path(self.pdf_path).exists()\<close> leaves the method as it is.
\<close>

definition validate_environment :: "world \<Rightarrow> 'ix researcher \<Rightarrow> error + unit" where
  "validate_environment w r =
     (if (case environ w ''OPENAI_API_KEY'' of None \<Rightarrow> True | Some v \<Rightarrow> v = [])
      then Inl (ValueError
        ''OPENAI_API_KEY environment variable not set. Please set it before running.'')
      else case path_exists w (pdf_path r) of
             Inl e \<Rightarrow> Inl e
           | Inr found \<Rightarrow>
               if \<not> found then Inl (FileNotFoundError (''PDF file not found: '' @ pdf_path r))
               else Inr ())"

text \<open>
  \<open>__init__\<close>: the fields are set, then the environment is validated; when that raises,
  the caller gets the exception and no object.
\<close>

definition new_researcher ::
  "world \<Rightarrow> string \<Rightarrow> int \<Rightarrow> int \<Rightarrow> string \<Rightarrow> real \<Rightarrow> string option \<Rightarrow> bool
     \<Rightarrow> error + 'ix researcher" where
  "new_researcher w pdf csize coverlap mname temp vpath pii =
     (let r = \<lparr>pdf_path = pdf, chunk_size = csize, chunk_overlap = coverlap,
                model_name = mname, temperature = temp,
                vectorstore_path = (case vpath of None \<Rightarrow> ''./vectorstore''
                                    | Some p \<Rightarrow> if p = [] then ''./vectorstore'' else p),
                enable_pii_detection = pii, vectorstore = None, qa_chain = None\<rparr>
      in case validate_environment w r of Inl e \<Rightarrow> Inl e | Inr u \<Rightarrow> Inr r)"


text \<open>
  \<open>Path(self.vectorstore_path).exists()\<close> is evaluated first, whatever \<open>force_recreate\<close> is;
  when it raises, the method ends there. After a save that returned the path exists.
\<close>

definition create_vectorstore ::
  "'ix library \<Rightarrow> document list \<Rightarrow> bool \<Rightarrow> 'ix system \<Rightarrow> (error + unit) \<times> 'ix system" where
  "create_vectorstore L chunks force_recreate s =
     (let p = vectorstore_path (self s) in
      case fs_exists s p of
        Inl e \<Rightarrow> (Inl e, s)
      | Inr vectorstore_exists \<Rightarrow>
         if vectorstore_exists \<and> \<not> force_recreate then
           (let s1 = s\<lparr>calls := calls s @ [LoadLocal p]\<rparr> in
            case faiss_load_local L p of
              Inl e \<Rightarrow> (Inl e, s1)
            | Inr ix \<Rightarrow> (Inr (), s1\<lparr>self := (self s1)\<lparr>vectorstore := Some ix\<rparr>\<rparr>))
         else
           (let s1 = s\<lparr>calls := calls s @ [FromDocuments chunks]\<rparr> in
            case faiss_from_documents L chunks of
              Inl e \<Rightarrow> (Inl e, s1)
            | Inr ix \<Rightarrow>
                (let s2 = s1\<lparr>calls := calls s1 @ [SaveLocal p],
                              self := (self s1)\<lparr>vectorstore := Some ix\<rparr>\<rparr> in
                 case faiss_save_local L ix p of
                   Inl e \<Rightarrow> (Inl e, s2)
                 | Inr u \<Rightarrow> (Inr (), s2\<lparr>fs_exists := (fs_exists s2)(p := Inr True)\<rparr>))))"

text \<open>
  \<open>ChatOpenAI(...)\<close>, \<open>as_retriever(...)\<close> and \<open>RetrievalQA.from_chain_type(...)\<close> build
  objects from their arguments and are taken to return.
\<close>

definition setup_qa_chain :: "'ix system \<Rightarrow> (error + unit) \<times> 'ix system" where
  "setup_qa_chain s =
     (case vectorstore (self s) of
        None \<Rightarrow> (Inl (ValueError ''Vectorstore not initialized. Call create_vectorstore first.''), s)
      | Some ix \<Rightarrow>
          (Inr (), s\<lparr>self := (self s)\<lparr>qa_chain := Some
             \<lparr>llm_model_name = model_name (self s), llm_temperature = temperature (self s),
              chain_type = ''stuff'', retriever_store = ix, retriever_k = 4,
              return_source_documents = True\<rparr>\<rparr>\<rparr>))"



section \<open>The nearest-neighbour query of the vector index\<close>

text \<open>
  Modelled from the spec: the top-k query of the vector index. \<open>main.py\<close> reaches it only
  through the retriever it configures with \<open>k = 4\<close>; the search itself is the vector
  store library's and is not among the sources. The specification's words: the query
  returns the \<open>k\<close> chunks whose embeddings are closest to the query vector, ordered
  descending by score, ties broken by insertion order, with \<open>k\<close> clamped to the size of
  the index. An index is the list of its chunks with their vectors, in insertion
  order; \<open>sim\<close> is the similarity of two vectors.
\<close>

definition index_query :: "('v \<Rightarrow> 'v \<Rightarrow> real) \<Rightarrow> ('c \<times> 'v) list \<Rightarrow> 'v \<Rightarrow> nat \<Rightarrow> ('c \<times> real) list" where
  "index_query sim index v k =
     take k (sort_key (\<lambda>(c, score). - score) (map (\<lambda>(c, e). (c, sim v e)) index))"

section \<open>Changing the text under a match\<close>

text \<open>
  A position with every code point replaced by its image under \<open>f\<close>, and the maps \<open>f\<close>
  that the matcher cannot tell from the identity under \<open>re.IGNORECASE\<close>: they keep the
  folded letter and the classes \<open>\w\<close>, \<open>\d\<close> and \<open>\s\<close> of every code point.
\<close>

definition map_pos :: "(nat \<Rightarrow> nat) \<Rightarrow> pos \<Rightarrow> pos" where
  "map_pos f st = (map_option f (fst st), map f (snd st))"

definition case_change :: "unicode_db \<Rightarrow> (nat \<Rightarrow> nat) \<Rightarrow> bool" where
  "case_change U f =
     (\<forall>c. fold_case (f c) = fold_case c \<and> is_word U (f c) = is_word U c
          \<and> is_digit U (f c) = is_digit U c \<and> is_space U (f c) = is_space U c)"

section \<open>Concrete states\<close>






definition world_without_key :: world where
  "world_without_key = \<lparr>environ = Map.empty, path_exists = (\<lambda>p. Inr False)\<rparr>"




section \<open>Evaluating the matcher\<close>

text \<open>
  Closed forms of the three ranges the patterns use under \<open>re.IGNORECASE\<close>, and the
  unfolding of a counted repetition, for evaluating the matcher on a concrete text.
\<close>

lemma fold_image_upper: "fold_case ` {65..90} = {97..122}"
proof (intro equalityI subsetI)
  fix x assume "x \<in> fold_case ` {65..90}" then show "x \<in> {97..122}"
    by (auto simp: fold_case_def)
next
  fix x :: nat assume "x \<in> {97..122}"
  then have "x - 32 \<in> {65..90}" "fold_case (x - 32) = x" by (auto simp: fold_case_def)
  then show "x \<in> fold_case ` {65..90}" by (metis image_eqI)
qed

lemma fold_image_lower: "fold_case ` {97..122} = {97..122}"
  by (rule image_cong[where g = id, simplified]) (auto simp: fold_case_def)

lemma fold_image_digit: "fold_case ` {48..57} = {48..57}"
  by (rule image_cong[where g = id, simplified]) (auto simp: fold_case_def)

lemma rng_upper: "item_match U True (Rng CHR ''A'' CHR ''Z'') c = (97 \<le> fold_case c \<and> fold_case c \<le> 122)"
  using fold_image_upper by simp

lemma rng_lower: "item_match U True (Rng CHR ''a'' CHR ''z'') c = (97 \<le> fold_case c \<and> fold_case c \<le> 122)"
  using fold_image_lower by simp

lemma rng_digit: "item_match U True (Rng CHR ''0'' CHR ''9'') c = (48 \<le> fold_case c \<and> fold_case c \<le> 57)"
  using fold_image_digit by simp

lemma rep_exact_numeral: "rep_exact f (numeral k) st = concat (map (rep_exact f (pred_numeral k)) (f st))"
  by (simp add: numeral_eq_Suc)

lemma rep_upto_numeral: "rep_upto f (numeral k) st = concat (map (rep_upto f (pred_numeral k)) (f st)) @ [st]"
  by (simp add: numeral_eq_Suc)

lemmas regex_eval = findall_nonempty_def str_of_def email_address_def ssn_def credit_card_def
  api_key_pattern_def aws_access_key_def phone_number_def ip_address_def cat_def lit_def
  digits_def opt_def class_match_def at_boundary_def is_word_def is_digit_def is_space_def
  ascii_alnum_def fold_case_def rng_upper rng_lower rng_digit rep_exact_numeral rep_upto_numeral

section \<open>The scanner reports labels, one for each pattern found\<close>

lemma scan_step_loop:
  "foldl (scan_step U doc) (findings, evaluated) entries =
     (findings @ map (\<lambda>(label, pattern). label @ '' pattern detected in source chunk'')
        (filter (\<lambda>(label, pattern). findall_nonempty U True pattern (page_content doc)) entries),
      evaluated @ map (\<lambda>(label, pattern). (label, page_content doc)) entries)"
  by (induction entries arbitrary: findings evaluated) (auto simp: scan_step_def)

lemma scan_loop:
  "foldl (\<lambda>acc doc. foldl (scan_step U doc) acc patterns) (findings, evaluated) documents =
     (findings @ concat (map (scan_document U) documents),
      evaluated @ concat (map (\<lambda>doc. map (\<lambda>(label, pattern). (label, page_content doc)) patterns)
                              documents))"
  by (induction documents arbitrary: findings evaluated)
    (simp_all add: scan_step_loop scan_document_def)

lemma scan_enabled:
  "scan_for_secrets U True documents = remdups (concat (map (scan_document U) documents))"
  by (simp add: scan_for_secrets_def scan_for_secrets_traced_def scan_loop)

text \<open>With detection enabled every pattern is evaluated on every chunk.\<close>

lemma scan_enabled_evaluations:
  "snd (scan_for_secrets_traced U True documents) =
     concat (map (\<lambda>doc. map (\<lambda>(label, pattern). (label, page_content doc)) patterns) documents)"
  by (simp add: scan_for_secrets_traced_def scan_loop)

lemma scan_enabled_evaluation_count:
  "length (snd (scan_for_secrets_traced U True documents)) = 7 * length documents"
  unfolding scan_enabled_evaluations
  by (induction documents) (simp_all add: patterns_def)

lemma filter_as_zip: "filter P xs = map fst (filter snd (zip xs (map P xs)))"
  by (induction xs) simp_all

lemma scan_document_row:
  "scan_document U d =
     findings_of_row (map (\<lambda>(label, pattern). findall_nonempty U True pattern (page_content d)) patterns)"
  unfolding scan_document_def findings_of_row_def
  by (subst filter_as_zip) simp

lemma scan_by_table:
  "scan_for_secrets U True documents = remdups (concat (map findings_of_row (match_table U documents)))"
proof -
  have "map (scan_document U) documents = map findings_of_row (match_table U documents)"
    unfolding match_table_def map_map comp_def by (rule map_cong[OF refl]) (rule scan_document_row)
  then show ?thesis by (simp add: scan_enabled)
qed

lemma patterns_distinct: "distinct (map fst patterns)"
  by (simp add: patterns_def)

lemma finding_inj: "(a @ '' pattern detected in source chunk'' = b @ '' pattern detected in source chunk'') = (a = b)"
  by simp

lemma in_scan_document:
  assumes "(label, pattern) \<in> set patterns"
  shows "(label @ '' pattern detected in source chunk'' \<in> set (scan_document U d))
         = findall_nonempty U True pattern (page_content d)"
proof
  assume "label @ '' pattern detected in source chunk'' \<in> set (scan_document U d)"
  then obtain l p where lp: "(l, p) \<in> set patterns"
      and found: "findall_nonempty U True p (page_content d)"
      and eq: "l @ '' pattern detected in source chunk'' = label @ '' pattern detected in source chunk''"
    unfolding scan_document_def by auto
  from eq have "l = label" by simp
  with lp assms patterns_distinct have "p = pattern"
    by (metis eq_key_imp_eq_value)
  with found show "findall_nonempty U True pattern (page_content d)" by simp
next
  assume "findall_nonempty U True pattern (page_content d)"
  with assms have "(label, pattern) \<in> set (filter (\<lambda>(label, pattern). findall_nonempty U True pattern (page_content d)) patterns)"
    by simp
  then show "label @ '' pattern detected in source chunk'' \<in> set (scan_document U d)"
    unfolding scan_document_def set_map by (rule rev_image_eqI) simp
qed

lemma count_remdups: "count_list (remdups xs) x = (if x \<in> set xs then 1 else 0)"
  by (induction xs) auto

lemma scan_document_labels:
  "set (scan_document U d) \<subseteq>
     {''Email Address pattern detected in source chunk'',
      ''SSN pattern detected in source chunk'',
      ''Credit Card pattern detected in source chunk'',
      ''API Key Pattern pattern detected in source chunk'',
      ''AWS Access Key pattern detected in source chunk'',
      ''Phone Number pattern detected in source chunk'',
      ''IP Address pattern detected in source chunk''}"
proof -
  have "set (scan_document U d) \<subseteq>
          set (map (\<lambda>(label, pattern). label @ '' pattern detected in source chunk'') patterns)"
    unfolding scan_document_def by auto
  also have "\<dots> = {''Email Address pattern detected in source chunk'',
      ''SSN pattern detected in source chunk'',
      ''Credit Card pattern detected in source chunk'',
      ''API Key Pattern pattern detected in source chunk'',
      ''AWS Access Key pattern detected in source chunk'',
      ''Phone Number pattern detected in source chunk'',
      ''IP Address pattern detected in source chunk''}"
    by (simp add: patterns_def)
  finally show ?thesis .
qed

lemma match_table_email_1: "match_table U [\<lparr>page_content = str_of ''a@b.cd''\<rparr>]
   = [[True, False, False, False, False, False, False]]"
  by (simp add: match_table_def patterns_def regex_eval del: item_match.simps(2))

lemma match_table_email_2: "match_table U [\<lparr>page_content = str_of ''x@y.zz''\<rparr>]
   = [[True, False, False, False, False, False, False]]"
  by (simp add: match_table_def patterns_def regex_eval del: item_match.simps(2))

lemma ssn_found: "findall_nonempty U True ssn (str_of ''123-45-6789'')"
  by (simp add: regex_eval del: item_match.simps(2))

text \<open>
  C1: with scanning enabled, every element of the result of \<open>scan_for_secrets\<close> is one of
  the seven fixed labels, and the result is a function of which patterns matched in
  which chunks: two chunk lists with the same table of matches give the same result,
  whatever text was matched.
\<close>

theorem scan_labels_only:
  "set (scan_for_secrets U True documents) \<subseteq>
     {''Email Address pattern detected in source chunk'',
      ''SSN pattern detected in source chunk'',
      ''Credit Card pattern detected in source chunk'',
      ''API Key Pattern pattern detected in source chunk'',
      ''AWS Access Key pattern detected in source chunk'',
      ''Phone Number pattern detected in source chunk'',
      ''IP Address pattern detected in source chunk''}
   \<and> (match_table U documents = match_table U documents' \<longrightarrow>
        scan_for_secrets U True documents = scan_for_secrets U True documents')"
proof
  show "set (scan_for_secrets U True documents) \<subseteq>
     {''Email Address pattern detected in source chunk'',
      ''SSN pattern detected in source chunk'',
      ''Credit Card pattern detected in source chunk'',
      ''API Key Pattern pattern detected in source chunk'',
      ''AWS Access Key pattern detected in source chunk'',
      ''Phone Number pattern detected in source chunk'',
      ''IP Address pattern detected in source chunk''}"
    using scan_document_labels by (fastforce simp: scan_enabled)
  show "match_table U documents = match_table U documents' \<longrightarrow>
        scan_for_secrets U True documents = scan_for_secrets U True documents'"
    by (simp add: scan_by_table)
qed



theorem scan_labels_only_witness:
  "match_table latin1_db [\<lparr>page_content = str_of ''a@b.cd''\<rparr>]
     = match_table latin1_db [\<lparr>page_content = str_of ''x@y.zz''\<rparr>]
   \<and> scan_for_secrets latin1_db True [\<lparr>page_content = str_of ''a@b.cd''\<rparr>]
     = scan_for_secrets latin1_db True [\<lparr>page_content = str_of ''x@y.zz''\<rparr>]"
proof -
  have h: "match_table latin1_db [\<lparr>page_content = str_of ''a@b.cd''\<rparr>]
     = match_table latin1_db [\<lparr>page_content = str_of ''x@y.zz''\<rparr>]"
    by (simp only: match_table_email_1 match_table_email_2)
  have e: "scan_for_secrets latin1_db True [\<lparr>page_content = str_of ''a@b.cd''\<rparr>]
     = scan_for_secrets latin1_db True [\<lparr>page_content = str_of ''x@y.zz''\<rparr>]"
    by (rule scan_labels_only[THEN conjunct2, rule_format, OF h])
  show ?thesis by (rule conjI[OF h e])
qed

text \<open>
  C2: with scanning enabled, the result holds the label of a pattern of the registry
  exactly once when the pattern matches in at least one chunk (however many chunks or
  places it matches in) and not at all otherwise, and scanning the empty chunk list
  gives the empty result.
\<close>

theorem scan_one_label_per_pattern:
  "scan_for_secrets U True [] = [] \<and>
   ((label, pattern) \<in> set patterns \<longrightarrow>
      count_list (scan_for_secrets U True documents) (label @ '' pattern detected in source chunk'')
        = (if \<exists>d \<in> set documents. findall_nonempty U True pattern (page_content d) then 1 else 0))"
proof -
  have a: "scan_for_secrets U True [] = []"
    by (simp add: scan_enabled)
  have b: "count_list (scan_for_secrets U True documents) (label @ '' pattern detected in source chunk'')
        = (if \<exists>d \<in> set documents. findall_nonempty U True pattern (page_content d) then 1 else 0)"
    if "(label, pattern) \<in> set patterns"
  proof -
    have "(label @ '' pattern detected in source chunk'' \<in> set (concat (map (scan_document U) documents)))
          = (\<exists>d \<in> set documents. findall_nonempty U True pattern (page_content d))"
      using in_scan_document[OF that] by auto
    then show ?thesis
      by (simp add: scan_enabled count_remdups)
  qed
  from a b show ?thesis by blast
qed

theorem scan_one_label_per_pattern_witness:
  "(''SSN'', ssn) \<in> set patterns
   \<and> count_list (scan_for_secrets latin1_db True
         [\<lparr>page_content = str_of ''123-45-6789''\<rparr>, \<lparr>page_content = str_of ''123-45-6789''\<rparr>])
        (''SSN'' @ '' pattern detected in source chunk'') = 1"
proof -
  have m: "(''SSN'', ssn) \<in> set patterns" by (simp add: patterns_def)
  have f: "\<exists>d \<in> set [\<lparr>page_content = str_of ''123-45-6789''\<rparr>, \<lparr>page_content = str_of ''123-45-6789''\<rparr>].
             findall_nonempty latin1_db True ssn (page_content d)"
    using ssn_found[of latin1_db] by simp
  have "count_list (scan_for_secrets latin1_db True
         [\<lparr>page_content = str_of ''123-45-6789''\<rparr>, \<lparr>page_content = str_of ''123-45-6789''\<rparr>])
        (''SSN'' @ '' pattern detected in source chunk'') = 1"
    using scan_one_label_per_pattern[of latin1_db "''SSN''" ssn
      "[\<lparr>page_content = str_of ''123-45-6789''\<rparr>, \<lparr>page_content = str_of ''123-45-6789''\<rparr>]",
      THEN conjunct2, rule_format, OF m] f
    by (simp only: if_True)
  then show ?thesis by (rule conjI[OF m])
qed

text \<open>
  C3: with detection disabled the scanner returns the empty list for every list of
  chunks, also for chunks that hold sensitive patterns, and it makes no call of
  \<open>re.findall\<close> at all: the log of evaluations is empty, where the enabled scanner
  evaluates every pattern on every chunk.
\<close>

theorem scan_disabled_empty:
  "scan_for_secrets U False documents = []
   \<and> scan_for_secrets_traced U False documents = ([], [])"
  by (simp add: scan_for_secrets_def scan_for_secrets_traced_def)

text \<open>
  On one chunk with an e-mail address: disabled, no finding and no evaluation; enabled,
  the seven evaluations.
\<close>

lemma scan_disabled_example:
  "scan_for_secrets_traced latin1_db False
       [\<lparr>page_content = str_of ''Contact us at support@example.com for help''\<rparr>] = ([], [])
   \<and> map fst (snd (scan_for_secrets_traced latin1_db True
       [\<lparr>page_content = str_of ''Contact us at support@example.com for help''\<rparr>]))
     = [''Email Address'', ''SSN'', ''Credit Card'', ''API Key Pattern'', ''AWS Access Key'',
        ''Phone Number'', ''IP Address'']"
proof
  show "scan_for_secrets_traced latin1_db False
       [\<lparr>page_content = str_of ''Contact us at support@example.com for help''\<rparr>] = ([], [])"
    by (simp add: scan_for_secrets_traced_def)
  show "map fst (snd (scan_for_secrets_traced latin1_db True
       [\<lparr>page_content = str_of ''Contact us at support@example.com for help''\<rparr>]))
     = [''Email Address'', ''SSN'', ''Credit Card'', ''API Key Pattern'', ''AWS Access Key'',
        ''Phone Number'', ''IP Address'']"
    by (simp add: scan_enabled_evaluations patterns_def)
qed

section \<open>The vector store is reused unless a rebuild is forced\<close>



section \<open>Queries need the chain\<close>





section \<open>Construction validates the environment\<close>

text \<open>
  C10: for every \<open>pdf_path\<close> and every other argument, when \<open>OPENAI_API_KEY\<close> is unset
  the constructor raises a \<open>ValueError\<close> whose message contains \<open>OPENAI_API_KEY\<close>; the
  caller gets no object, hence no vector store and no QA chain.
\<close>

theorem construction_requires_api_key:
  "environ w ''OPENAI_API_KEY'' = None \<Longrightarrow>
     (new_researcher w pdf csize coverlap mname temp vpath pii :: error + 'ix researcher)
       = Inl (ValueError ''OPENAI_API_KEY environment variable not set. Please set it before running.'')
     \<and> sublist ''OPENAI_API_KEY''
          ''OPENAI_API_KEY environment variable not set. Please set it before running.''"
proof -
  assume "environ w ''OPENAI_API_KEY'' = None"
  then have "(new_researcher w pdf csize coverlap mname temp vpath pii :: error + 'ix researcher)
       = Inl (ValueError ''OPENAI_API_KEY environment variable not set. Please set it before running.'')"
    by (simp add: new_researcher_def validate_environment_def)
  moreover have "sublist ''OPENAI_API_KEY''
          ''OPENAI_API_KEY environment variable not set. Please set it before running.''"
    by (rule prefix_imp_sublist) (simp add: prefix_def)
  ultimately show ?thesis by (rule conjI)
qed

theorem construction_requires_api_key_witness:
  "environ world_without_key ''OPENAI_API_KEY'' = None
   \<and> (new_researcher world_without_key ''data/sample_security_policy.pdf'' 1000 200 ''gpt-4o'' 0 None False
        :: error + nat researcher)
       = Inl (ValueError ''OPENAI_API_KEY environment variable not set. Please set it before running.'')"
proof -
  have h: "environ world_without_key ''OPENAI_API_KEY'' = None"
    by (simp add: world_without_key_def)
  show ?thesis
    by (rule conjI[OF h construction_requires_api_key[OF h, THEN conjunct1]])
qed




section \<open>Top-k retrieval\<close>

text \<open>The retriever \<open>setup_qa_chain\<close> configures always has \<open>k = 4\<close>.\<close>

lemma setup_qa_chain_k:
  "vectorstore (self s) = Some ix \<Longrightarrow>
     map_option retriever_k (qa_chain (self (snd (setup_qa_chain s)))) = Some 4"
  by (simp add: setup_qa_chain_def)

lemma sorted_desc: "sorted (map (\<lambda>(c, score). - score) xs) \<Longrightarrow> sorted_wrt (\<lambda>a b. b \<le> a) (map snd (xs :: ('c \<times> real) list))"
  by (induction xs) (auto simp: case_prod_beta)

text \<open>
  C8, on the model of the query taken from the specification: the query returns
  \<open>min k n\<close> results on an index of \<open>n\<close> vectors, so at most \<open>k\<close> and fewer exactly when
  \<open>n < k\<close>; the scores of the results are in descending order; and on the empty index
  with \<open>k = 4\<close> the result is the empty list.
\<close>

theorem index_query_top_k:
  "length (index_query sim index v k) = min k (length index)
   \<and> (length (index_query sim index v k) < k) = (length index < k)
   \<and> sorted_wrt (\<lambda>a b. b \<le> a) (map snd (index_query sim index v k))
   \<and> index_query sim [] v 4 = []"
proof -
  have "sorted (map (\<lambda>(c, score). - score) (take k (sort_key (\<lambda>(c, score). - score) (map (\<lambda>(c, e). (c, sim v e)) index))))"
    unfolding take_map[symmetric] by (rule sorted_wrt_take) (rule sorted_sort_key)
  then have "sorted_wrt (\<lambda>a b. b \<le> a) (map snd (index_query sim index v k))"
    unfolding index_query_def by (rule sorted_desc)
  then show ?thesis
    by (auto simp: index_query_def)
qed

section \<open>Letter case of the scanned text\<close>

text \<open>
  A map of code points that keeps the folded letter and the three classes commutes
  with the matcher under \<open>re.IGNORECASE\<close>: the positions where a match can end in the
  mapped text are the images of those in the text.
\<close>

lemma item_match_change:
  assumes "case_change U f"
  shows "item_match U True it (f c) = item_match U True it c"
  using assms by (cases it) (simp_all add: case_change_def)

lemma class_match_change:
  assumes "case_change U f"
  shows "class_match U True items (f c) = class_match U True items c"
  by (simp add: class_match_def item_match_change[OF assms])

lemma step_class_change:
  assumes "\<And>c. P (f c) = P c"
  shows "step_class P (map_pos f st) = map (map_pos f) (step_class P st)"
proof (cases st)
  case (Pair p cs)
  then show ?thesis using assms by (cases cs) (simp_all add: map_pos_def)
qed

lemma at_boundary_change:
  assumes "case_change U f"
  shows "at_boundary U (map_pos f st) = at_boundary U st"
proof -
  have w: "\<And>c. is_word U (f c) = is_word U c" using assms by (simp add: case_change_def)
  show ?thesis
    by (cases st) (simp add: at_boundary_def map_pos_def w split: option.splits list.splits)
qed

lemma concat_map_change:
  assumes "\<And>st. g (map_pos f st) = map (map_pos f) (g st)"
  shows "concat (map g (map (map_pos f) xs)) = map (map_pos f) (concat (map g xs))"
  by (induction xs) (simp_all add: assms)

lemma rep_exact_change:
  assumes "\<And>st. g (map_pos f st) = map (map_pos f) (g st)"
  shows "rep_exact g n (map_pos f st) = map (map_pos f) (rep_exact g n st)"
proof (induction n arbitrary: st)
  case 0
  show ?case by simp
next
  case (Suc n)
  have "rep_exact g (Suc n) (map_pos f st) = concat (map (rep_exact g n) (map (map_pos f) (g st)))"
    by (simp add: assms)
  also have "\<dots> = map (map_pos f) (concat (map (rep_exact g n) (g st)))"
    by (rule concat_map_change) (rule Suc.IH)
  finally show ?case by simp
qed

lemma rep_upto_change:
  assumes "\<And>st. g (map_pos f st) = map (map_pos f) (g st)"
  shows "rep_upto g n (map_pos f st) = map (map_pos f) (rep_upto g n st)"
proof (induction n arbitrary: st)
  case 0
  show ?case by simp
next
  case (Suc n)
  have "concat (map (rep_upto g n) (g (map_pos f st))) = concat (map (rep_upto g n) (map (map_pos f) (g st)))"
    by (simp add: assms)
  also have "\<dots> = map (map_pos f) (concat (map (rep_upto g n) (g st)))"
    by (rule concat_map_change) (rule Suc.IH)
  finally show ?case by simp
qed

lemma length_map_pos: "length (snd (map_pos f st)) = length (snd st)"
  by (simp add: map_pos_def)

lemma ends_change:
  assumes "case_change U f"
  shows "ends U True r (map_pos f st) = map (map_pos f) (ends U True r st)"
proof (induction r arbitrary: st)
  case Empty
  show ?case by simp
next
  case (Class items)
  show ?case by (simp add: step_class_change class_match_change[OF assms])
next
  case Boundary
  show ?case by (simp add: at_boundary_change[OF assms])
next
  case (Cat r1 r2)
  have "ends U True (Cat r1 r2) (map_pos f st)
          = concat (map (ends U True r2) (map (map_pos f) (ends U True r1 st)))"
    by (simp only: ends.simps Cat.IH(1))
  also have "\<dots> = map (map_pos f) (concat (map (ends U True r2) (ends U True r1 st)))"
    by (rule concat_map_change) (rule Cat.IH(2))
  finally show ?case by simp
next
  case (Or r1 r2)
  show ?case by (simp add: Or.IH)
next
  case (Repeat r m n)
  let ?g = "\<lambda>s. rep_upto (ends U True r) (case n of None \<Rightarrow> length (snd s) | Some k \<Rightarrow> k - m) s"
  have g: "?g (map_pos f s) = map (map_pos f) (?g s)" for s
    by (cases n) (simp_all add: length_map_pos rep_upto_change[of "ends U True r", OF Repeat.IH])
  have "ends U True (Repeat r m n) (map_pos f st)
          = concat (map ?g (map (map_pos f) (rep_exact (ends U True r) m st)))"
    by (simp add: rep_exact_change[of "ends U True r", OF Repeat.IH])
  also have "\<dots> = map (map_pos f) (concat (map ?g (rep_exact (ends U True r) m st)))"
    by (rule concat_map_change) (rule g)
  finally show ?case by simp
next
  case (Group r)
  show ?case by (simp add: Group.IH)
qed

lemma search_change:
  assumes "case_change U f"
  shows "search U True r (map_option f p) (map f s) = search U True r p s"
proof (induction s arbitrary: p)
  case Nil
  have "ends U True r (map_pos f (p, [])) = map (map_pos f) (ends U True r (p, []))"
    by (rule ends_change[OF assms])
  then show ?case by (simp add: map_pos_def)
next
  case (Cons c cs)
  have "ends U True r (map_pos f (p, c # cs)) = map (map_pos f) (ends U True r (p, c # cs))"
    by (rule ends_change[OF assms])
  then have "(ends U True r (map_option f p, f c # map f cs) \<noteq> []) = (ends U True r (p, c # cs) \<noteq> [])"
    by (simp add: map_pos_def)
  moreover have "search U True r (Some (f c)) (map f cs) = search U True r (Some c) cs"
    using Cons.IH[of "Some c"] by simp
  ultimately show ?case by simp
qed

lemma findall_change:
  assumes "case_change U f"
  shows "findall_nonempty U True r (map f s) = findall_nonempty U True r s"
  using search_change[OF assms, of r None s] by (simp add: findall_nonempty_def)

lemma ascii_upper_change: "case_change U ascii_upper"
  by (auto simp: case_change_def ascii_upper_def fold_case_def is_word_def is_digit_def
      is_space_def ascii_alnum_def)

lemma ascii_lower_change: "case_change U ascii_lower"
  by (auto simp: case_change_def ascii_lower_def fold_case_def is_word_def is_digit_def
      is_space_def ascii_alnum_def)

lemma str_upper_ascii: "\<forall>c \<in> set s. c < 128 \<Longrightarrow> str_upper U s = map ascii_upper s"
  by (induction s) (simp_all add: str_upper_def)

lemma str_lower_ascii: "\<forall>c \<in> set s. c < 128 \<Longrightarrow> str_lower U s = map ascii_lower s"
  by (induction s) (simp_all add: str_lower_def)

lemma scan_document_content:
  "page_content d = page_content d' \<Longrightarrow> scan_document U d = scan_document U d'"
  by (simp add: scan_document_def)

lemma scan_document_mapped:
  assumes "case_change U f" and "page_content d' = map f (page_content d)"
  shows "scan_document U d' = scan_document U d"
  unfolding scan_document_def assms(2) findall_change[OF assms(1)] ..

lemma scan_upper_ascii:
  assumes "\<forall>d \<in> set documents. \<forall>c \<in> set (page_content d). c < 128"
  shows "map (scan_document U) (map (upper_document U) documents) = map (scan_document U) documents"
  using assms
proof (induction documents)
  case Nil
  show ?case by simp
next
  case (Cons d ds)
  have "page_content (upper_document U d) = map ascii_upper (page_content d)"
    using Cons.prems by (simp add: upper_document_def str_upper_ascii)
  then have "scan_document U (upper_document U d) = scan_document U d"
    by (rule scan_document_mapped[OF ascii_upper_change])
  with Cons show ?case by simp
qed

lemma scan_lower_ascii:
  assumes "\<forall>d \<in> set documents. \<forall>c \<in> set (page_content d). c < 128"
  shows "map (scan_document U) (map (lower_document U) documents) = map (scan_document U) documents"
  using assms
proof (induction documents)
  case Nil
  show ?case by simp
next
  case (Cons d ds)
  have "page_content (lower_document U d) = map ascii_lower (page_content d)"
    using Cons.prems by (simp add: lower_document_def str_lower_ascii)
  then have "scan_document U (lower_document U d) = scan_document U d"
    by (rule scan_document_mapped[OF ascii_lower_change])
  with Cons show ?case by simp
qed

lemma in_scan:
  assumes "(label, pattern) \<in> set patterns"
  shows "(label @ '' pattern detected in source chunk'' \<in> set (scan_for_secrets U True documents))
         = (\<exists>d \<in> set documents. findall_nonempty U True pattern (page_content d))"
  by (simp add: scan_enabled in_scan_document[OF assms])

lemma upper_sharp_s: "str_upper latin1_db [223, 64, 98, 46, 99, 100] = [83, 83, 64, 66, 46, 67, 68]"
  by (simp add: str_upper_def latin1_db_def ascii_upper_def)

lemma email_upper_found: "findall_nonempty U True email_address [83, 83, 64, 66, 46, 67, 68]"
  by (simp add: regex_eval del: item_match.simps(2))

lemma word_sharp_s: "uc_alnum latin1_db 223"
  by (simp add: latin1_db_def)

lemma email_sharp_s_not_found: "\<not> findall_nonempty latin1_db True email_address [223, 64, 98, 46, 99, 100]"
  by (simp add: regex_eval word_sharp_s del: item_match.simps(2))

text \<open>
  C9, as the code has it: for every list of chunks whose text is ASCII, the enabled
  scanner reports the same set of labels on the chunks, on the chunks with all text
  upper-cased and on the chunks with all text lower-cased.
\<close>

theorem scan_case_insensitive_ascii:
  assumes "\<forall>d \<in> set documents. \<forall>c \<in> set (page_content d). c < 128"
  shows "set (scan_for_secrets U True (map (upper_document U) documents))
           = set (scan_for_secrets U True documents)
         \<and> set (scan_for_secrets U True (map (lower_document U) documents))
           = set (scan_for_secrets U True documents)"
  unfolding scan_enabled scan_upper_ascii[OF assms] scan_lower_ascii[OF assms]
  by simp

theorem scan_case_insensitive_ascii_witness:
  "set (scan_for_secrets latin1_db True (map (upper_document latin1_db)
          [\<lparr>page_content = str_of ''Contact support@example.com''\<rparr>]))
     = set (scan_for_secrets latin1_db True [\<lparr>page_content = str_of ''Contact support@example.com''\<rparr>])
   \<and> set (scan_for_secrets latin1_db True (map (lower_document latin1_db)
          [\<lparr>page_content = str_of ''Contact support@example.com''\<rparr>]))
     = set (scan_for_secrets latin1_db True [\<lparr>page_content = str_of ''Contact support@example.com''\<rparr>])"
proof -
  have h: "\<forall>d \<in> set [\<lparr>page_content = str_of ''Contact support@example.com''\<rparr>].
             \<forall>c \<in> set (page_content d). c < 128"
    by (simp add: str_of_def)
  show ?thesis by (rule scan_case_insensitive_ascii[OF h])
qed

text \<open>
  Outside ASCII upper-casing can change what matches: \<open>str.upper\<close> turns U+00DF, which
  no class of the e-mail pattern accepts, into \<open>SS\<close>, which is a local part.
\<close>

theorem scan_upper_counterexample:
  "set (scan_for_secrets latin1_db True
          (map (upper_document latin1_db) [\<lparr>page_content = [223, 64, 98, 46, 99, 100]\<rparr>]))
   \<noteq> set (scan_for_secrets latin1_db True [\<lparr>page_content = [223, 64, 98, 46, 99, 100]\<rparr>])"
proof -
  have m: "(''Email Address'', email_address) \<in> set patterns" by (simp add: patterns_def)
  have a: "''Email Address'' @ '' pattern detected in source chunk''
        \<in> set (scan_for_secrets latin1_db True
          (map (upper_document latin1_db) [\<lparr>page_content = [223, 64, 98, 46, 99, 100]\<rparr>]))"
    unfolding in_scan[OF m] by (simp add: upper_document_def upper_sharp_s email_upper_found)
  have b: "''Email Address'' @ '' pattern detected in source chunk''
        \<notin> set (scan_for_secrets latin1_db True [\<lparr>page_content = [223, 64, 98, 46, 99, 100]\<rparr>])"
    unfolding in_scan[OF m] by (simp add: email_sharp_s_not_found)
  show ?thesis
  proof
    assume "set (scan_for_secrets latin1_db True
          (map (upper_document latin1_db) [\<lparr>page_content = [223, 64, 98, 46, 99, 100]\<rparr>]))
      = set (scan_for_secrets latin1_db True [\<lparr>page_content = [223, 64, 98, 46, 99, 100]\<rparr>])"
    with a have "''Email Address'' @ '' pattern detected in source chunk''
        \<in> set (scan_for_secrets latin1_db True [\<lparr>page_content = [223, 64, 98, 46, 99, 100]\<rparr>])"
      by (simp only:)
    with b show False by (rule notE)
  qed
qed

end
